theory Spec2Isabelle
  imports Main
begin

section \<open>Python strings\<close>

text \<open>
  A Python \<open>str\<close> is a sequence of Unicode code points, so a string is modelled as a list
  of natural numbers. \<open>py\<close> turns an ASCII literal into such a list. The raw literals of
  the script contain backslashes (code point 92), which a HOL string literal cannot hold;
  \<open>raw\<close> builds such a path from its components, joined by backslashes.
\<close>

type_synonym pystr = "nat list"

definition py :: "string \<Rightarrow> pystr" where
  "py s = map of_char s"

fun raw :: "string list \<Rightarrow> pystr" where
  "raw [] = []"
| "raw [s] = py s"
| "raw (s # t # ss) = py s @ 92 # raw (t # ss)"

text \<open>
  \<open>str.strip()\<close> without argument removes the characters for which CPython's
  \<open>Py_UNICODE_ISSPACE\<close> holds, from both ends: U+0009..U+000D, U+001C..U+0020, U+0085,
  U+00A0, U+1680, U+2000..U+200A, U+2028, U+2029, U+202F, U+205F and U+3000.
\<close>

definition isspace :: "nat \<Rightarrow> bool" where
  "isspace c \<longleftrightarrow>
     (9 \<le> c \<and> c \<le> 13) \<or> (28 \<le> c \<and> c \<le> 32) \<or> c = 133 \<or> c = 160 \<or> c = 5760 \<or>
     (8192 \<le> c \<and> c \<le> 8202) \<or> c = 8232 \<or> c = 8233 \<or> c = 8239 \<or> c = 8287 \<or> c = 12288"

definition lstrip :: "pystr \<Rightarrow> pystr" where
  "lstrip s = dropWhile isspace s"

definition rstrip :: "pystr \<Rightarrow> pystr" where
  "rstrip s = rev (dropWhile isspace (rev s))"

definition strip :: "pystr \<Rightarrow> pystr" where
  "strip s = rstrip (lstrip s)"

definition text_lines :: "pystr list \<Rightarrow> pystr" where
  "text_lines ls = concat (map (\<lambda>l. l @ [10]) ls)"

section \<open>The process and its environment\<close>

text \<open>
  The script talks to three things outside itself: the standard output, the standard input
  and the filesystem. The filesystem maps a path to what \<open>os.remove\<close> would do with it:
  a path that \<open>os.path.exists\<close> does not see is unmapped, a path whose removal succeeds is
  \<open>Removable\<close>, and a path whose removal raises \<open>OSError\<close> (a directory, a read-only
  or locked file, an I/O error) is \<open>Unremovable\<close> with the text of the exception.
  Every call into \<open>os\<close> is recorded with its result, as a system-call trace would.
  The run is alone on the filesystem (nothing else changes it between the existence check
  and the removal), and a write to the standard output succeeds.
\<close>

datatype exn = EOFError | OSError pystr

fun str :: "exn \<Rightarrow> pystr" where
  "str EOFError = py ''EOF when reading a line''"
| "str (OSError msg) = msg"

datatype entry = Removable | Unremovable pystr

type_synonym filesystem = "pystr \<rightharpoonup> entry"

datatype os_call = Exists pystr bool | Remove pystr "exn option"

record world =
  stdout :: pystr
  stdin :: pystr
  files :: filesystem
  syscalls :: "os_call list"

text \<open>
  How the interpreter ends: the script runs off its last line, \<open>exit(n)\<close> raises
  \<open>SystemExit\<close>, or an exception reaches the top level (traceback, status 1).
\<close>

datatype ending = Finished | SystemExit int | Uncaught exn

fun exit_status :: "ending \<Rightarrow> int" where
  "exit_status Finished = 0"
| "exit_status (SystemExit n) = n"
| "exit_status (Uncaught e) = 1"

definition print :: "pystr \<Rightarrow> world \<Rightarrow> world" where
  "print s w = w\<lparr>stdout := stdout w @ s @ [10]\<rparr>"

text \<open>
  \<open>input(prompt)\<close> writes the prompt without a newline, then reads one line and returns
  it without its newline; at end of file it raises \<open>EOFError\<close>.
\<close>

definition readline :: "pystr \<Rightarrow> exn + pystr" where
  "readline s = (if s = [] then Inl EOFError else Inr (takeWhile (\<lambda>c. c \<noteq> 10) s))"

definition input :: "pystr \<Rightarrow> world \<Rightarrow> (exn + pystr) \<times> world" where
  "input prompt w =
     (let w1 = w\<lparr>stdout := stdout w @ prompt\<rparr> in
      case readline (stdin w) of
        Inl e \<Rightarrow> (Inl e, w1)
      | Inr line \<Rightarrow> (Inr line, w1\<lparr>stdin := drop (Suc (length line)) (stdin w)\<rparr>))"

definition os_path_exists :: "pystr \<Rightarrow> world \<Rightarrow> bool \<times> world" where
  "os_path_exists f w =
     (let found = (files w f \<noteq> None) in
      (found, w\<lparr>syscalls := syscalls w @ [Exists f found]\<rparr>))"

text \<open>
  \<open>os.remove\<close> on a missing path raises as well; the script never gets there, since it
  checks for existence first.
\<close>

definition os_remove :: "pystr \<Rightarrow> world \<Rightarrow> (exn + unit) \<times> world" where
  "os_remove f w =
     (case files w f of
        Some Removable \<Rightarrow>
          (Inr (), w\<lparr>files := (files w)(f := None), syscalls := syscalls w @ [Remove f None]\<rparr>)
      | Some (Unremovable msg) \<Rightarrow>
          (Inl (OSError msg), w\<lparr>syscalls := syscalls w @ [Remove f (Some (OSError msg))]\<rparr>)
      | None \<Rightarrow>
          (Inl (OSError (py ''[Errno 2] No such file or directory'')),
           w\<lparr>syscalls := syscalls w @
              [Remove f (Some (OSError (py ''[Errno 2] No such file or directory'')))]\<rparr>))"

definition exit :: "int \<Rightarrow> world \<Rightarrow> ending \<times> world" where
  "exit n w = (SystemExit n, w)"

section \<open>The script\<close>

definition files_to_delete :: "pystr list" where
  "files_to_delete =
     [raw [''c:'', ''Users'', ''chrom'', ''Videos'', ''blueprint  stable'',
           ''blueprint  stable complete back up'', ''pubspec.yaml''],
      raw [''c:'', ''Users'', ''chrom'', ''Videos'', ''blueprint  stable'',
           ''blueprint  stable complete back up'', ''analysis_options.yaml''],
      raw [''c:'', ''Users'', ''chrom'', ''Videos'', ''blueprint  stable'',
           ''blueprint  stable complete back up'', ''README.md'']]"

text \<open>\<open>for f in files_to_delete: print(f)\<close>\<close>

fun print_files :: "pystr list \<Rightarrow> world \<Rightarrow> world" where
  "print_files [] w = w"
| "print_files (f # fs) w = print_files fs (print f w)"

text \<open>The body of the second loop: the \<open>try\<close> block and its handler.\<close>

definition delete_one :: "pystr \<Rightarrow> world \<Rightarrow> world" where
  "delete_one f w =
     (let (found, w1) = os_path_exists f w in
      if found then
        (case os_remove f w1 of
           (Inr u, w2) \<Rightarrow> print (py ''Deleted: '' @ f) w2
         | (Inl e, w2) \<Rightarrow> print (py ''Failed to delete '' @ f @ py '': '' @ str e) w2)
      else print (py ''Skipped (not found): '' @ f) w1)"

fun deletion_loop :: "pystr list \<Rightarrow> world \<Rightarrow> world" where
  "deletion_loop [] w = w"
| "deletion_loop (f # fs) w = deletion_loop fs (delete_one f w)"

text \<open>
  The whole script, with the list of paths as a parameter; \<open>main\<close> is the script with
  the list it has in the source.
\<close>

definition script :: "pystr list \<Rightarrow> world \<Rightarrow> ending \<times> world" where
  "script paths w0 =
     (let w1 = print (py ''Files marked for deletion:'') w0;
          w2 = print_files paths w1
      in case input (py ''Type DELETE to confirm deletion: '') w2 of
           (Inl e, w3) \<Rightarrow> (Uncaught e, w3)
         | (Inr confirm, w3) \<Rightarrow>
             if strip confirm \<noteq> py ''DELETE'' then
               exit 1 (print (py ''Aborted by user.'') w3)
             else (Finished, deletion_loop paths w3))"

definition main :: "world \<Rightarrow> ending \<times> world" where
  "main w0 = script files_to_delete w0"

text \<open>
  A run starts with nothing written and no call made yet, on the given input stream and
  filesystem.
\<close>

definition start :: "pystr \<Rightarrow> filesystem \<Rightarrow> world" where
  "start s fs = \<lparr>stdout = [], stdin = s, files = fs, syscalls = []\<rparr>"

definition run :: "pystr list \<Rightarrow> pystr \<Rightarrow> filesystem \<Rightarrow> ending \<times> world" where
  "run paths s fs = script paths (start s fs)"

section \<open>Vocabulary of the properties\<close>

text \<open>
  What a visit to one path can yield, the line and the calls that go with each outcome, and
  the outcome of the \<open>i\<close>-th visit read off the filesystem the run started on: a removable
  path that stands earlier in the list is gone by the time it is visited again.
\<close>

datatype outcome = Deleted | Skipped | Failed pystr

definition outcome_at :: "filesystem \<Rightarrow> pystr \<Rightarrow> outcome" where
  "outcome_at fs f =
     (case fs f of
        None \<Rightarrow> Skipped
      | Some Removable \<Rightarrow> Deleted
      | Some (Unremovable msg) \<Rightarrow> Failed msg)"

definition visit_outcome :: "filesystem \<Rightarrow> pystr list \<Rightarrow> nat \<Rightarrow> outcome" where
  "visit_outcome fs ps i =
     (if ps ! i \<in> set (take i ps) \<and> fs (ps ! i) = Some Removable then Skipped
      else outcome_at fs (ps ! i))"

fun report_line :: "pystr \<Rightarrow> outcome \<Rightarrow> pystr" where
  "report_line f Deleted = py ''Deleted: '' @ f"
| "report_line f Skipped = py ''Skipped (not found): '' @ f"
| "report_line f (Failed msg) = py ''Failed to delete '' @ f @ py '': '' @ msg"

fun visit_calls :: "pystr \<Rightarrow> outcome \<Rightarrow> os_call list" where
  "visit_calls f Deleted = [Exists f True, Remove f None]"
| "visit_calls f Skipped = [Exists f False]"
| "visit_calls f (Failed msg) = [Exists f True, Remove f (Some (OSError msg))]"

fun call_path :: "os_call \<Rightarrow> pystr" where
  "call_path (Exists f b) = f"
| "call_path (Remove f r) = f"

fun existence_checks :: "os_call list \<Rightarrow> pystr list" where
  "existence_checks [] = []"
| "existence_checks (Exists f b # cs) = f # existence_checks cs"
| "existence_checks (Remove f r # cs) = existence_checks cs"

definition header :: pystr where
  "header = py ''Files marked for deletion:''"

definition prompt :: pystr where
  "prompt = py ''Type DELETE to confirm deletion: ''"

text \<open>The world in which the deletion loop starts, when the run gets that far.\<close>

definition loop_start :: "pystr list \<Rightarrow> pystr \<Rightarrow> filesystem \<Rightarrow> world" where
  "loop_start ps s fs = snd (input prompt (print_files ps (print header (start s fs))))"

section \<open>A scenario\<close>

text \<open>
  Three paths: the first exists and can be removed, the second is missing, the third exists
  and cannot be removed. \<open>yes\<close> is the input stream of a user who types the token.
\<close>

definition path_a :: pystr where
  "path_a = py ''/tmp/a.txt''"

definition path_b :: pystr where
  "path_b = py ''/tmp/b.txt''"

definition path_c :: pystr where
  "path_c = py ''/tmp/c.txt''"

definition denied :: pystr where
  "denied = py ''[Errno 13] Permission denied''"

definition scenario_fs :: filesystem where
  "scenario_fs = [path_a \<mapsto> Removable, path_c \<mapsto> Unremovable denied]"

definition yes :: pystr where
  "yes = py ''DELETE'' @ [10]"

section \<open>What the builtins and the loops do\<close>

lemma print_files_eq: "print_files ps w = w\<lparr>stdout := stdout w @ text_lines ps\<rparr>"
  by (induction ps arbitrary: w) (simp_all add: print_def text_lines_def)

lemma delete_one_eq:
  "delete_one f w =
     w\<lparr>stdout := stdout w @ report_line f (outcome_at (files w) f) @ [10],
       files := (if files w f = Some Removable then (files w)(f := None) else files w),
       syscalls := syscalls w @ visit_calls f (outcome_at (files w) f)\<rparr>"
  by (cases "files w f"; cases "the (files w f)")
     (simp_all add: delete_one_def os_path_exists_def os_remove_def print_def outcome_at_def)

lemma visit_outcome_0: "visit_outcome fs (f # ps) 0 = outcome_at fs f"
  by (simp add: visit_outcome_def)

lemma visit_outcome_Suc:
  "visit_outcome fs (f # ps) (Suc i) =
     visit_outcome (if fs f = Some Removable then fs(f := None) else fs) ps i"
  by (auto simp: visit_outcome_def outcome_at_def)

lemma deletion_loop_stdin: "stdin (deletion_loop ps w) = stdin w"
  by (induction ps arbitrary: w) (simp_all add: delete_one_eq)

lemma deletion_loop_files:
  "files (deletion_loop ps w) =
     (\<lambda>p. if p \<in> set ps \<and> files w p = Some Removable then None else files w p)"
  by (induction ps arbitrary: w) (auto simp: delete_one_eq fun_eq_iff)

lemma deletion_loop_stdout:
  "stdout (deletion_loop ps w) =
     stdout w @ text_lines (map (\<lambda>i. report_line (ps ! i) (visit_outcome (files w) ps i))
                                [0..<length ps])"
proof (induction ps arbitrary: w)
  case Nil
  show ?case by (simp add: text_lines_def)
next
  case (Cons f ps)
  show ?case
    by (simp add: Cons.IH delete_one_eq map_upt_Suc visit_outcome_0 visit_outcome_Suc
        text_lines_def del: upt_Suc)
qed

lemma deletion_loop_syscalls:
  "syscalls (deletion_loop ps w) =
     syscalls w @ concat (map (\<lambda>i. visit_calls (ps ! i) (visit_outcome (files w) ps i))
                              [0..<length ps])"
proof (induction ps arbitrary: w)
  case Nil
  show ?case by simp
next
  case (Cons f ps)
  show ?case
    by (simp add: Cons.IH delete_one_eq map_upt_Suc visit_outcome_0 visit_outcome_Suc
        del: upt_Suc)
qed

lemma deletion_loop_append:
  "deletion_loop (ps @ qs) w = deletion_loop qs (deletion_loop ps w)"
  by (induction ps arbitrary: w) simp_all

lemma loop_start_files: "files (loop_start ps s fs) = fs"
  by (simp add: loop_start_def input_def print_files_eq print_def start_def Let_def
      split: sum.split)

lemma loop_start_syscalls: "syscalls (loop_start ps s fs) = []"
  by (simp add: loop_start_def input_def print_files_eq print_def start_def Let_def
      split: sum.split)

lemma loop_start_stdout: "stdout (loop_start ps s fs) = text_lines (header # ps) @ prompt"
  by (simp add: loop_start_def input_def print_files_eq print_def start_def Let_def
      text_lines_def split: sum.split)

lemma run_eof:
  "readline s = Inl e \<Longrightarrow> run ps s fs = (Uncaught e, loop_start ps s fs)"
  by (simp add: run_def script_def loop_start_def input_def Let_def header_def prompt_def
      print_files_eq print_def start_def)

lemma run_abort:
  "readline s = Inr c \<Longrightarrow> strip c \<noteq> py ''DELETE'' \<Longrightarrow>
   run ps s fs = (SystemExit 1, print (py ''Aborted by user.'') (loop_start ps s fs))"
  by (simp add: run_def script_def loop_start_def input_def Let_def header_def prompt_def
      exit_def print_files_eq print_def start_def)

lemma run_confirmed:
  "readline s = Inr c \<Longrightarrow> strip c = py ''DELETE'' \<Longrightarrow>
   run ps s fs = (Finished, deletion_loop ps (loop_start ps s fs))"
  by (simp add: run_def script_def loop_start_def input_def Let_def header_def prompt_def
      print_files_eq print_def start_def)


lemma strip_eq_iff:
  assumes "t \<noteq> []" and "\<not> isspace (hd t)" and "\<not> isspace (last t)"
  shows "strip c = t \<longleftrightarrow>
         (\<exists>l r. c = l @ t @ r \<and> list_all isspace l \<and> list_all isspace r)"
proof
  assume eq: "strip c = t"
  define m where "m = dropWhile isspace c"
  have c: "c = takeWhile isspace c @ m"
    by (simp add: m_def)
  have "rev (takeWhile isspace (rev m) @ dropWhile isspace (rev m)) = m"
    by (simp only: takeWhile_dropWhile_id rev_rev_ident)
  then have "rev (dropWhile isspace (rev m)) @ rev (takeWhile isspace (rev m)) = m"
    by (simp only: rev_append)
  moreover have "rev (dropWhile isspace (rev m)) = t"
    using eq by (simp add: strip_def lstrip_def rstrip_def m_def)
  ultimately have m: "m = t @ rev (takeWhile isspace (rev m))"
    by simp
  have "list_all isspace (takeWhile isspace c)"
    by (simp add: list_all_iff) (meson set_takeWhileD)
  moreover have "list_all isspace (rev (takeWhile isspace (rev m)))"
    by (simp add: list_all_iff) (meson set_takeWhileD)
  moreover have "c = takeWhile isspace c @ t @ rev (takeWhile isspace (rev m))"
    using c m by simp
  ultimately show "\<exists>l r. c = l @ t @ r \<and> list_all isspace l \<and> list_all isspace r"
    by blast
next
  assume "\<exists>l r. c = l @ t @ r \<and> list_all isspace l \<and> list_all isspace r"
  then obtain l r where c: "c = l @ t @ r" and l: "list_all isspace l" and r: "list_all isspace r"
    by blast
  from assms obtain x t' where t: "t = x # t'" and x: "\<not> isspace x"
    by (cases t) auto
  have "dropWhile isspace c = t @ r"
    using l x by (simp add: c t list_all_iff)
  moreover have "dropWhile isspace (rev r @ rev t) = rev t"
  proof -
    from assms obtain y t'' where rt: "rev t = y # t''" and y: "\<not> isspace y"
      by (cases "rev t") (auto simp: hd_rev)
    have "\<And>x. x \<in> set (rev r) \<Longrightarrow> isspace x"
      using r by (simp add: list_all_iff)
    then have "dropWhile isspace (rev r @ rev t) = dropWhile isspace (rev t)"
      by (rule dropWhile_append2)
    then show ?thesis using y by (simp add: rt)
  qed
  ultimately show "strip c = t"
    by (simp add: strip_def lstrip_def rstrip_def)
qed

lemma strip_DELETE_iff:
  "strip c = py ''DELETE'' \<longleftrightarrow>
   (\<exists>l r. c = l @ py ''DELETE'' @ r \<and> list_all isspace l \<and> list_all isspace r)"
  by (rule strip_eq_iff) (simp_all add: py_def isspace_def)


lemmas ev = py_def strip_def lstrip_def rstrip_def isspace_def readline_def

lemma existence_checks_append:
  "existence_checks (cs @ ds) = existence_checks cs @ existence_checks ds"
  by (induction cs rule: existence_checks.induct) simp_all

lemma existence_checks_visit: "existence_checks (visit_calls f out) = [f]"
  by (cases out) simp_all

lemma existence_checks_visits:
  "existence_checks (concat (map (\<lambda>i. visit_calls (g i) (h i)) is)) = map g is"
  by (induction "is") (simp_all add: existence_checks_append existence_checks_visit)

lemma call_path_visit: "c \<in> set (visit_calls f out) \<Longrightarrow> call_path c = f"
  by (cases out) auto

lemma inj_report_line: "inj (report_line f)"
proof (rule injI)
  fix a b
  assume "report_line f a = report_line f b"
  then show "a = b"
    by (cases a; cases b) (simp_all add: py_def)
qed

lemma visit_outcome_at_visit:
  "visit_outcome (files w) ps i = outcome_at (files (deletion_loop (take i ps) w)) (ps ! i)"
  by (simp add: visit_outcome_def deletion_loop_files outcome_at_def)

lemma visit_outcome_without:
  assumes "fs f \<noteq> Some Removable \<or> f \<in> set pre"
  shows "visit_outcome fs (pre @ f # post) (if i < length pre then i else Suc i) =
         visit_outcome fs (pre @ post) i"
proof (cases "i < length pre")
  case True
  then show ?thesis by (simp add: visit_outcome_def nth_append)
next
  case False
  then obtain j where i: "i = length pre + j"
    by (metis le_add_diff_inverse not_less)
  have "Suc (length pre + j) = length pre + Suc j" by simp
  then show ?thesis
    using assms unfolding i visit_outcome_def
    by (auto simp add: nth_append simp del: add_Suc_right)
qed

lemma failed_removal_is_logged:
  assumes "f \<in> set ps" and "files w f = Some (Unremovable msg)"
  shows "Remove f (Some (OSError msg)) \<in> set (syscalls (deletion_loop ps w))"
proof -
  from assms(1) obtain i where i: "i < length ps" and f: "ps ! i = f"
    by (auto simp: in_set_conv_nth)
  have "visit_outcome (files w) ps i = Failed msg"
    using assms(2) f by (simp add: visit_outcome_def outcome_at_def)
  then have "Remove f (Some (OSError msg)) \<in>
      set (visit_calls (ps ! i) (visit_outcome (files w) ps i))"
    using f by simp
  with i show ?thesis
    by (auto simp: deletion_loop_syscalls)
qed

lemma readline_yes: "readline yes = Inr (py ''DELETE'')"
  by (simp add: yes_def ev)

lemma strip_yes: "strip (py ''DELETE'') = py ''DELETE''"
  by (simp add: ev)

lemmas scenario = path_a_def path_b_def path_c_def denied_def scenario_fs_def

lemma map_insert_at:
  assumes "\<And>i. i < n \<Longrightarrow> g' i = g i" and "g' n = x"
    and "\<And>i. n \<le> i \<Longrightarrow> g' (Suc i) = g i"
  shows "map g' [0..<Suc (n + m)] =
         take n (map g [0..<n + m]) @ x # drop n (map g [0..<n + m])"
proof -
  have "[0..<n + Suc m] = [0..<n] @ [n..<n + Suc m]"
    by (rule upt_add_eq_append) simp
  moreover have "[n..<n + Suc m] = n # [Suc n..<Suc (n + m)]"
    by (simp add: upt_conv_Cons del: upt_Suc)
  moreover have "[Suc n..<Suc (n + m)] = map Suc [n..<n + m]"
    by (simp only: map_Suc_upt)
  ultimately have split: "[0..<Suc (n + m)] = [0..<n] @ n # map Suc [n..<n + m]"
    by simp
  have "map g' [0..<n] = map g [0..<n]"
    by (rule map_cong) (simp_all add: assms(1))
  moreover have "map g' (map Suc [n..<n + m]) = map g [n..<n + m]"
    by (simp add: assms(3))
  moreover have "take n (map g [0..<n + m]) = map g [0..<n]"
    by (simp add: take_map)
  moreover have "drop n (map g [0..<n + m]) = map g [n..<n + m]"
    by (simp add: drop_map)
  ultimately show ?thesis
    unfolding split using assms(2) by simp
qed

lemma nth_without:
  "(pre @ f # post) ! (if i < length pre then i else Suc i) = (pre @ post) ! i"
  by (simp add: nth_append Suc_diff_le)

lemma main_is_run: "main (start s fs) = run files_to_delete s fs"
  by (simp add: main_def run_def)

section \<open>Properties of the script\<close>

text \<open>
  C1. When a line is read and, stripped, it is not \<open>DELETE\<close>, the run ends through
  \<open>exit(1)\<close> with status 1, the filesystem is the one the run started on, no call into
  \<open>os\<close> was made, and the last thing written is the line \<open>Aborted by user.\<close>
\<close>

theorem abort_without_confirmation:
  assumes "readline s = Inr confirm" and "strip confirm \<noteq> py ''DELETE''"
  shows "fst (run ps s fs) = SystemExit 1 \<and>
         exit_status (fst (run ps s fs)) = 1 \<and>
         files (snd (run ps s fs)) = fs \<and>
         syscalls (snd (run ps s fs)) = [] \<and>
         stdout (snd (run ps s fs)) =
           text_lines (header # ps) @ prompt @ text_lines [py ''Aborted by user.'']"
  using assms
  by (simp add: run_abort print_def loop_start_files loop_start_syscalls loop_start_stdout
      text_lines_def)


theorem abort_without_confirmation_witness:
  "readline (py ''no'' @ [10]) = Inr (py ''no'') \<and>
   strip (py ''no'') \<noteq> py ''DELETE'' \<and>
   fst (run [py ''a''] (py ''no'' @ [10]) [py ''a'' \<mapsto> Removable]) = SystemExit 1 \<and>
   files (snd (run [py ''a''] (py ''no'' @ [10]) [py ''a'' \<mapsto> Removable])) (py ''a'')
     = Some Removable \<and>
   syscalls (snd (run [py ''a''] (py ''no'' @ [10]) [py ''a'' \<mapsto> Removable])) = []"
proof -
  have h1: "readline (py ''no'' @ [10]) = Inr (py ''no'')"
    by (simp add: ev)
  have h2: "strip (py ''no'') \<noteq> py ''DELETE''"
    by (simp add: ev)
  from abort_without_confirmation [OF h1 h2, of "[py ''a'']" "[py ''a'' \<mapsto> Removable]"]
  show ?thesis using h1 h2 by simp
qed

text \<open>
  C2. In a confirmed run the existence checks are made on the paths of the list, once each
  and in list order (a path listed twice is checked twice). Each visit has one outcome,
  \<open>Deleted\<close>, \<open>Skipped\<close> or \<open>Failed\<close>, which is what the filesystem holds at that path
  when the visit starts; the calls and the line of the visit are those of its outcome, and
  the three kinds of line cannot be mistaken for one another.
\<close>

theorem confirmed_run_visits_each_path_once:
  assumes "readline s = Inr confirm" and "strip confirm = py ''DELETE''"
  shows "existence_checks (syscalls (snd (run ps s fs))) = ps \<and>
         syscalls (snd (run ps s fs)) =
           concat (map (\<lambda>i. visit_calls (ps ! i) (visit_outcome fs ps i)) [0..<length ps]) \<and>
         stdout (snd (run ps s fs)) =
           text_lines (header # ps) @ prompt @
           text_lines (map (\<lambda>i. report_line (ps ! i) (visit_outcome fs ps i)) [0..<length ps]) \<and>
         (\<forall>i. visit_outcome fs ps i =
            outcome_at (files (deletion_loop (take i ps) (loop_start ps s fs))) (ps ! i)) \<and>
         (\<forall>f. inj (report_line f))"
proof -
  have run: "snd (run ps s fs) = deletion_loop ps (loop_start ps s fs)"
    using assms by (simp add: run_confirmed)
  have calls: "syscalls (snd (run ps s fs)) =
      concat (map (\<lambda>i. visit_calls (ps ! i) (visit_outcome fs ps i)) [0..<length ps])"
    by (simp add: run deletion_loop_syscalls loop_start_files loop_start_syscalls)
  have "existence_checks (syscalls (snd (run ps s fs))) = map (\<lambda>i. ps ! i) [0..<length ps]"
    unfolding calls by (rule existence_checks_visits)
  then have checks: "existence_checks (syscalls (snd (run ps s fs))) = ps"
    by (simp add: map_nth)
  have out: "stdout (snd (run ps s fs)) =
      text_lines (header # ps) @ prompt @
      text_lines (map (\<lambda>i. report_line (ps ! i) (visit_outcome fs ps i)) [0..<length ps])"
    by (simp add: run deletion_loop_stdout loop_start_files loop_start_stdout)
  have at: "visit_outcome fs ps i =
      outcome_at (files (deletion_loop (take i ps) (loop_start ps s fs))) (ps ! i)" for i
    using visit_outcome_at_visit [of "loop_start ps s fs" ps i] by (simp add: loop_start_files)
  show ?thesis
    using checks calls out at inj_report_line by blast
qed

theorem confirmed_run_visits_each_path_once_witness:
  "readline yes = Inr (py ''DELETE'') \<and> strip (py ''DELETE'') = py ''DELETE'' \<and>
   existence_checks (syscalls (snd (run [path_a, path_b, path_c] yes scenario_fs))) =
     [path_a, path_b, path_c] \<and>
   syscalls (snd (run [path_a, path_b, path_c] yes scenario_fs)) =
     [Exists path_a True, Remove path_a None, Exists path_b False,
      Exists path_c True, Remove path_c (Some (OSError denied))] \<and>
   stdout (snd (run [path_a, path_b, path_c] yes scenario_fs)) =
     text_lines [header, path_a, path_b, path_c] @ prompt @
     text_lines [py ''Deleted: '' @ path_a, py ''Skipped (not found): '' @ path_b,
                 py ''Failed to delete '' @ path_c @ py '': '' @ denied]"
proof -
  have v0: "visit_outcome scenario_fs [path_a, path_b, path_c] 0 = Deleted"
    by (simp add: visit_outcome_def outcome_at_def scenario py_def)
  have v1: "visit_outcome scenario_fs [path_a, path_b, path_c] (Suc 0) = Skipped"
    by (simp add: visit_outcome_def outcome_at_def scenario py_def)
  have v2: "visit_outcome scenario_fs [path_a, path_b, path_c] (Suc (Suc 0)) = Failed denied"
    by (simp add: visit_outcome_def outcome_at_def scenario py_def)
  from confirmed_run_visits_each_path_once [OF readline_yes strip_yes,
      of "[path_a, path_b, path_c]" scenario_fs]
  show ?thesis
    by (simp add: readline_yes strip_yes v0 v1 v2)
qed

text \<open>
  C3. When the removal of a path fails in a confirmed run, the visit makes one existence check
  and one removal attempt, writes \<open>Failed to delete p: reason\<close>, leaves the filesystem as
  it was, and the loop goes on with the rest of the list; the run still ends normally and
  the path is still there at the end. Nothing else differs from the run on the list without
  that entry: the final filesystem is the same, the lines of the deletion phase are those of
  that run with the failure line put in at the entry's place, and the calls into \<open>os\<close>
  are those of that run with the one check and the one attempt put in at the same place.
\<close>

theorem removal_failure_is_isolated:
  assumes "readline s = Inr confirm" and "strip confirm = py ''DELETE''"
    and "mid = deletion_loop pre (loop_start (pre @ f # post) s fs)"
    and "files mid f = Some (Unremovable msg)"
    and "reports = map (\<lambda>i. report_line ((pre @ post) ! i) (visit_outcome fs (pre @ post) i))
                       [0..<length (pre @ post)]"
    and "calls = map (\<lambda>i. visit_calls ((pre @ post) ! i) (visit_outcome fs (pre @ post) i))
                     [0..<length (pre @ post)]"
  shows "run (pre @ f # post) s fs =
           (Finished,
            deletion_loop post
              (mid\<lparr>stdout := stdout mid @ py ''Failed to delete '' @ f @ py '': '' @ msg @ [10],
                   syscalls := syscalls mid @ [Exists f True, Remove f (Some (OSError msg))]\<rparr>)) \<and>
         files (snd (run (pre @ f # post) s fs)) f = Some (Unremovable msg) \<and>
         files (snd (run (pre @ f # post) s fs)) = files (snd (run (pre @ post) s fs)) \<and>
         (\<forall>i. visit_outcome fs (pre @ f # post) (if i < length pre then i else Suc i) =
              visit_outcome fs (pre @ post) i) \<and>
         stdout (snd (run (pre @ post) s fs)) =
           text_lines (header # pre @ post) @ prompt @ text_lines reports \<and>
         stdout (snd (run (pre @ f # post) s fs)) =
           text_lines (header # pre @ f # post) @ prompt @
           text_lines (take (length pre) reports @
                       (py ''Failed to delete '' @ f @ py '': '' @ msg) #
                       drop (length pre) reports) \<and>
         syscalls (snd (run (pre @ post) s fs)) = concat calls \<and>
         syscalls (snd (run (pre @ f # post) s fs)) =
           concat (take (length pre) calls @
                   [Exists f True, Remove f (Some (OSError msg))] #
                   drop (length pre) calls)"
proof -
  have fs: "fs f = Some (Unremovable msg)"
    using assms(3,4) by (simp add: deletion_loop_files loop_start_files split: if_splits)
  have step: "delete_one f mid =
      mid\<lparr>stdout := stdout mid @ py ''Failed to delete '' @ f @ py '': '' @ msg @ [10],
          syscalls := syscalls mid @ [Exists f True, Remove f (Some (OSError msg))]\<rparr>"
    using assms(4) by (simp add: delete_one_eq outcome_at_def)
  have run: "run (pre @ f # post) s fs =
      (Finished, deletion_loop post (delete_one f mid))"
    using assms(1,2,3) by (simp add: run_confirmed deletion_loop_append)
  have same: "files (snd (run (pre @ f # post) s fs)) = files (snd (run (pre @ post) s fs))"
    using assms(1,2) fs
    by (auto simp add: run_confirmed deletion_loop_files loop_start_files fun_eq_iff)
  have still: "files (snd (run (pre @ f # post) s fs)) f = Some (Unremovable msg)"
    using assms(1,2) fs by (simp add: run_confirmed deletion_loop_files loop_start_files)
  have others: "visit_outcome fs (pre @ f # post) (if i < length pre then i else Suc i) =
      visit_outcome fs (pre @ post) i" for i
    by (rule visit_outcome_without) (simp add: fs)
  have at_f: "(pre @ f # post) ! length pre = f"
    and out_f: "visit_outcome fs (pre @ f # post) (length pre) = Failed msg"
    using fs by (simp_all add: visit_outcome_def outcome_at_def)
  have before: "(pre @ f # post) ! i = (pre @ post) ! i \<and>
      visit_outcome fs (pre @ f # post) i = visit_outcome fs (pre @ post) i"
    if "i < length pre" for i
    using nth_without [of pre f post i] others [of i] that by simp
  have after: "(pre @ f # post) ! Suc i = (pre @ post) ! i \<and>
      visit_outcome fs (pre @ f # post) (Suc i) = visit_outcome fs (pre @ post) i"
    if "length pre \<le> i" for i
    using nth_without [of pre f post i] others [of i] that by simp
  have len: "length (pre @ f # post) = Suc (length pre + length post)"
    and len': "length (pre @ post) = length pre + length post"
    by simp_all
  have lines: "map (\<lambda>i. report_line ((pre @ f # post) ! i) (visit_outcome fs (pre @ f # post) i))
        [0..<length (pre @ f # post)] =
      take (length pre) reports @
      (py ''Failed to delete '' @ f @ py '': '' @ msg) # drop (length pre) reports"
    unfolding assms(5) len len'
    by (rule map_insert_at) (simp_all add: before after at_f out_f)
  have trace: "map (\<lambda>i. visit_calls ((pre @ f # post) ! i) (visit_outcome fs (pre @ f # post) i))
        [0..<length (pre @ f # post)] =
      take (length pre) calls @
      [Exists f True, Remove f (Some (OSError msg))] # drop (length pre) calls"
    unfolding assms(6) len len'
    by (rule map_insert_at) (simp_all add: before after at_f out_f)
  have out_with: "stdout (snd (run (pre @ f # post) s fs)) =
      text_lines (header # pre @ f # post) @ prompt @
      text_lines (take (length pre) reports @
                  (py ''Failed to delete '' @ f @ py '': '' @ msg) # drop (length pre) reports)"
    using assms(1,2)
    by (simp only: run_confirmed snd_conv deletion_loop_stdout loop_start_files
        loop_start_stdout lines append_assoc)
  have out_without: "stdout (snd (run (pre @ post) s fs)) =
      text_lines (header # pre @ post) @ prompt @ text_lines reports"
    using assms(1,2)
    by (simp only: run_confirmed snd_conv deletion_loop_stdout loop_start_files
        loop_start_stdout assms(5) append_assoc)
  have calls_with: "syscalls (snd (run (pre @ f # post) s fs)) =
      concat (take (length pre) calls @
              [Exists f True, Remove f (Some (OSError msg))] # drop (length pre) calls)"
    using assms(1,2)
    by (simp only: run_confirmed snd_conv deletion_loop_syscalls loop_start_files
        loop_start_syscalls trace append_Nil)
  have calls_without: "syscalls (snd (run (pre @ post) s fs)) = concat calls"
    using assms(1,2)
    by (simp only: run_confirmed snd_conv deletion_loop_syscalls loop_start_files
        loop_start_syscalls assms(6) append_Nil)
  have first: "run (pre @ f # post) s fs =
      (Finished,
       deletion_loop post
         (mid\<lparr>stdout := stdout mid @ py ''Failed to delete '' @ f @ py '': '' @ msg @ [10],
              syscalls := syscalls mid @ [Exists f True, Remove f (Some (OSError msg))]\<rparr>))"
    using run step by simp
  show ?thesis
    using first still same others out_without out_with calls_without calls_with by blast
qed

theorem removal_failure_is_isolated_witness:
  "readline yes = Inr (py ''DELETE'') \<and> strip (py ''DELETE'') = py ''DELETE'' \<and>
   files (deletion_loop [] (loop_start ([] @ path_c # [path_a]) yes scenario_fs)) path_c =
     Some (Unremovable denied) \<and>
   fst (run [path_c, path_a] yes scenario_fs) = Finished \<and>
   files (snd (run [path_c, path_a] yes scenario_fs)) path_c = Some (Unremovable denied) \<and>
   files (snd (run [path_c, path_a] yes scenario_fs)) path_a = None \<and>
   syscalls (snd (run [path_c, path_a] yes scenario_fs)) =
     [Exists path_c True, Remove path_c (Some (OSError denied)),
      Exists path_a True, Remove path_a None] \<and>
   stdout (snd (run [path_c, path_a] yes scenario_fs)) =
     text_lines [header, path_c, path_a] @ prompt @
     text_lines [py ''Failed to delete '' @ path_c @ py '': '' @ denied,
                 py ''Deleted: '' @ path_a] \<and>
   stdout (snd (run [path_a] yes scenario_fs)) =
     text_lines [header, path_a] @ prompt @ text_lines [py ''Deleted: '' @ path_a]"
proof -
  have h: "files (deletion_loop [] (loop_start ([] @ path_c # [path_a]) yes scenario_fs)) path_c =
      Some (Unremovable denied)"
    by (simp add: loop_start_files scenario py_def)
  have a: "scenario_fs path_a = Some Removable" and ne: "path_c \<noteq> path_a"
    by (simp_all add: scenario py_def)
  have v: "visit_outcome scenario_fs [path_a] 0 = Deleted"
    by (simp add: visit_outcome_def outcome_at_def a)
  from removal_failure_is_isolated [OF readline_yes strip_yes refl h refl refl]
  show ?thesis
    using h ne by (simp add: readline_yes strip_yes delete_one_eq outcome_at_def
        loop_start_files loop_start_syscalls loop_start_stdout text_lines_def a v)
qed

text \<open>
  C4. In every run, whatever the input, a path that is not in the list keeps its entry; an
  entry is never created or changed, only removed, and only where it was removable; and
  every call into \<open>os\<close> is an existence check or a removal of a listed path.
\<close>

theorem only_listed_paths_are_touched:
  "(\<forall>p. p \<notin> set ps \<longrightarrow> files (snd (run ps s fs)) p = fs p) \<and>
   (\<forall>p. files (snd (run ps s fs)) p = fs p \<or>
        (fs p = Some Removable \<and> files (snd (run ps s fs)) p = None)) \<and>
   call_path ` set (syscalls (snd (run ps s fs))) \<subseteq> set ps"
proof (cases "readline s")
  case (Inl e)
  then show ?thesis
    by (simp add: run_eof loop_start_files loop_start_syscalls)
next
  case (Inr c)
  show ?thesis
  proof (cases "strip c = py ''DELETE''")
    case False
    with Inr show ?thesis
      by (simp add: run_abort print_def loop_start_files loop_start_syscalls)
  next
    case True
    have run: "snd (run ps s fs) = deletion_loop ps (loop_start ps s fs)"
      using Inr True by (simp add: run_confirmed)
    have "call_path c \<in> set ps" if "c \<in> set (syscalls (snd (run ps s fs)))" for c
    proof -
      from that obtain i where "i < length ps"
        and "c \<in> set (visit_calls (ps ! i) (visit_outcome fs ps i))"
        by (auto simp: run deletion_loop_syscalls loop_start_files loop_start_syscalls)
      then show ?thesis by (simp add: call_path_visit)
    qed
    then have "call_path ` set (syscalls (snd (run ps s fs))) \<subseteq> set ps"
      by blast
    then show ?thesis
      by (simp add: run deletion_loop_files loop_start_files)
  qed
qed

theorem only_listed_paths_are_touched_witness:
  "path_c \<notin> set [path_a, path_b] \<and>
   files (snd (run [path_a, path_b] yes scenario_fs)) path_c = Some (Unremovable denied) \<and>
   call_path ` set (syscalls (snd (run [path_a, path_b] yes scenario_fs))) \<subseteq>
     {path_a, path_b}"
proof -
  have h: "path_c \<notin> set [path_a, path_b]"
    by (simp add: scenario py_def)
  have c: "scenario_fs path_c = Some (Unremovable denied)"
    by (simp add: scenario py_def)
  from only_listed_paths_are_touched [of "[path_a, path_b]" yes scenario_fs]
  have "path_c \<notin> set [path_a, path_b] \<longrightarrow>
        files (snd (run [path_a, path_b] yes scenario_fs)) path_c = scenario_fs path_c"
    and "call_path ` set (syscalls (snd (run [path_a, path_b] yes scenario_fs))) \<subseteq>
        set [path_a, path_b]"
    by blast+
  with h c show ?thesis by simp
qed

text \<open>
  C5. A confirmed run processes the whole list and then runs off the end of the script:
  status 0, whatever the filesystem held (and so however many removals failed or were
  skipped). Over all runs the status is 0 exactly when a line was read that, stripped, is
  \<open>DELETE\<close>.
\<close>

theorem exit_status_of_a_confirmed_run:
  assumes "readline s = Inr confirm" and "strip confirm = py ''DELETE''"
  shows "run ps s fs = (Finished, deletion_loop ps (loop_start ps s fs)) \<and>
         exit_status (fst (run ps s fs)) = 0 \<and>
         (\<forall>ps' s' fs'. exit_status (fst (run ps' s' fs')) = 0 \<longleftrightarrow>
            (\<exists>c. readline s' = Inr c \<and> strip c = py ''DELETE''))"
proof -
  have "exit_status (fst (run ps' s' fs')) = 0 \<longleftrightarrow>
        (\<exists>c. readline s' = Inr c \<and> strip c = py ''DELETE'')" for ps' s' fs'
  proof (cases "readline s'")
    case (Inl e)
    then show ?thesis by (simp add: run_eof)
  next
    case (Inr c)
    then show ?thesis
      by (cases "strip c = py ''DELETE''") (simp_all add: run_abort run_confirmed)
  qed
  then show ?thesis using assms by (simp add: run_confirmed)
qed

theorem exit_status_of_a_confirmed_run_witness:
  "readline yes = Inr (py ''DELETE'') \<and> strip (py ''DELETE'') = py ''DELETE'' \<and>
   fst (run [path_a, path_b, path_c] yes scenario_fs) = Finished \<and>
   exit_status (fst (run [path_a, path_b, path_c] yes scenario_fs)) = 0 \<and>
   exit_status (fst (run [path_a, path_b, path_c] (py ''no'' @ [10]) scenario_fs)) \<noteq> 0 \<and>
   exit_status (fst (run [path_a, path_b, path_c] [] scenario_fs)) \<noteq> 0"
proof -
  have no: "\<not> (\<exists>c. readline (py ''no'' @ [10]) = Inr c \<and> strip c = py ''DELETE'')"
    by (simp add: ev)
  have eof: "\<not> (\<exists>c. readline [] = Inr c \<and> strip c = py ''DELETE'')"
    by (simp add: ev)
  from exit_status_of_a_confirmed_run [OF readline_yes strip_yes,
      of "[path_a, path_b, path_c]" scenario_fs]
  show ?thesis
    using no eof by (simp add: readline_yes strip_yes)
qed

text \<open>
  C6. Whether the run deletes or aborts is decided by comparing the stripped input line with
  \<open>DELETE\<close>: it deletes exactly when the line is \<open>DELETE\<close> between two runs of
  whitespace, and aborts with status 1 otherwise. The line with two spaces on each side gives
  the same run as the bare token; \<open>delete\<close>, \<open>DELET\<close> and \<open>DELETE now\<close> abort.
\<close>

theorem confirmation_is_strip_then_compare:
  assumes "readline s = Inr confirm"
  shows "(fst (run ps s fs) = Finished \<longleftrightarrow> strip confirm = py ''DELETE'') \<and>
         (fst (run ps s fs) = SystemExit 1 \<longleftrightarrow> strip confirm \<noteq> py ''DELETE'') \<and>
         (strip confirm = py ''DELETE'' \<longleftrightarrow>
            (\<exists>l r. confirm = l @ py ''DELETE'' @ r \<and> list_all isspace l \<and> list_all isspace r)) \<and>
         run ps (py ''  DELETE  '' @ [10]) fs = run ps (py ''DELETE'' @ [10]) fs \<and>
         fst (run ps (py ''DELETE'' @ [10]) fs) = Finished \<and>
         fst (run ps (py ''delete'' @ [10]) fs) = SystemExit 1 \<and>
         fst (run ps (py ''DELET'' @ [10]) fs) = SystemExit 1 \<and>
         fst (run ps (py ''DELETE now'' @ [10]) fs) = SystemExit 1"
proof -
  have decide: "(fst (run ps s fs) = Finished \<longleftrightarrow> strip confirm = py ''DELETE'') \<and>
      (fst (run ps s fs) = SystemExit 1 \<longleftrightarrow> strip confirm \<noteq> py ''DELETE'')"
    using assms by (cases "strip confirm = py ''DELETE''") (simp_all add: run_abort run_confirmed)
  have spaces: "run ps (py ''  DELETE  '' @ [10]) fs = run ps (py ''DELETE'' @ [10]) fs"
  proof -
    have a: "readline (py ''  DELETE  '' @ [10]) = Inr (py ''  DELETE  '')"
      by (simp add: ev)
    have a': "strip (py ''  DELETE  '') = py ''DELETE''"
      by (simp add: ev)
    have b: "readline (py ''DELETE'' @ [10]) = Inr (py ''DELETE'')"
      by (simp add: ev)
    have b': "strip (py ''DELETE'') = py ''DELETE''"
      by (simp add: ev)
    have "loop_start ps (py ''  DELETE  '' @ [10]) fs = loop_start ps (py ''DELETE'' @ [10]) fs"
      by (simp add: loop_start_def input_def print_files_eq print_def start_def a b)
    then show ?thesis
      by (simp add: run_confirmed [OF a a'] run_confirmed [OF b b'])
  qed
  have plain: "fst (run ps (py ''DELETE'' @ [10]) fs) = Finished"
  proof -
    have "readline (py ''DELETE'' @ [10]) = Inr (py ''DELETE'')"
      and "strip (py ''DELETE'') = py ''DELETE''"
      by (simp_all add: ev)
    then show ?thesis by (simp add: run_confirmed)
  qed
  have lower: "fst (run ps (py ''delete'' @ [10]) fs) = SystemExit 1"
  proof -
    have "readline (py ''delete'' @ [10]) = Inr (py ''delete'')"
      and "strip (py ''delete'') \<noteq> py ''DELETE''"
      by (simp_all add: ev)
    then show ?thesis by (simp add: run_abort)
  qed
  have short: "fst (run ps (py ''DELET'' @ [10]) fs) = SystemExit 1"
  proof -
    have "readline (py ''DELET'' @ [10]) = Inr (py ''DELET'')"
      and "strip (py ''DELET'') \<noteq> py ''DELETE''"
      by (simp_all add: ev)
    then show ?thesis by (simp add: run_abort)
  qed
  have long: "fst (run ps (py ''DELETE now'' @ [10]) fs) = SystemExit 1"
  proof -
    have "readline (py ''DELETE now'' @ [10]) = Inr (py ''DELETE now'')"
      and "strip (py ''DELETE now'') \<noteq> py ''DELETE''"
      by (simp_all add: ev)
    then show ?thesis by (simp add: run_abort)
  qed
  show ?thesis
    using decide strip_DELETE_iff [of confirm] spaces plain lower short long by blast
qed

theorem confirmation_is_strip_then_compare_witness:
  "readline (9 # py ''DELETE '' @ [10]) = Inr (9 # py ''DELETE '') \<and>
   strip (9 # py ''DELETE '') = py ''DELETE'' \<and>
   fst (run [path_a] (9 # py ''DELETE '' @ [10]) scenario_fs) = Finished"
proof -
  have h: "readline (9 # py ''DELETE '' @ [10]) = Inr (9 # py ''DELETE '')"
    by (simp add: ev)
  have s: "strip (9 # py ''DELETE '') = py ''DELETE''"
    by (simp add: ev)
  from confirmation_is_strip_then_compare [OF h, of "[path_a]" scenario_fs]
  show ?thesis
    using h s by simp
qed

text \<open>
  C7. When a path is missing at the time of its visit in a confirmed run, the visit makes the
  existence check only, writes \<open>Skipped (not found): p\<close>, and the loop goes on with the
  rest of the list; the run ends normally with status 0, and the list entry changes neither
  the final filesystem nor the outcome of any other visit.
\<close>

theorem missing_path_is_skipped:
  assumes "readline s = Inr confirm" and "strip confirm = py ''DELETE''"
    and "mid = deletion_loop pre (loop_start (pre @ f # post) s fs)"
    and "files mid f = None"
  shows "run (pre @ f # post) s fs =
           (Finished,
            deletion_loop post
              (mid\<lparr>stdout := stdout mid @ py ''Skipped (not found): '' @ f @ [10],
                   syscalls := syscalls mid @ [Exists f False]\<rparr>)) \<and>
         exit_status (fst (run (pre @ f # post) s fs)) = 0 \<and>
         files (snd (run (pre @ f # post) s fs)) = files (snd (run (pre @ post) s fs)) \<and>
         (\<forall>i. visit_outcome fs (pre @ f # post) (if i < length pre then i else Suc i) =
              visit_outcome fs (pre @ post) i)"
proof -
  have fs: "fs f \<noteq> Some Removable \<or> f \<in> set pre"
    using assms(3,4) by (auto simp add: deletion_loop_files loop_start_files split: if_splits)
  have step: "delete_one f mid =
      mid\<lparr>stdout := stdout mid @ py ''Skipped (not found): '' @ f @ [10],
          syscalls := syscalls mid @ [Exists f False]\<rparr>"
    using assms(4) by (simp add: delete_one_eq outcome_at_def)
  have run: "run (pre @ f # post) s fs =
      (Finished, deletion_loop post (delete_one f mid))"
    using assms(1,2,3) by (simp add: run_confirmed deletion_loop_append)
  have same: "files (snd (run (pre @ f # post) s fs)) = files (snd (run (pre @ post) s fs))"
    using assms(1,2) fs
    by (auto simp add: run_confirmed deletion_loop_files loop_start_files fun_eq_iff)
  have others: "visit_outcome fs (pre @ f # post) (if i < length pre then i else Suc i) =
      visit_outcome fs (pre @ post) i" for i
    using fs by (rule visit_outcome_without)
  show ?thesis
    using run step same others by simp
qed

theorem missing_path_is_skipped_witness:
  "readline yes = Inr (py ''DELETE'') \<and> strip (py ''DELETE'') = py ''DELETE'' \<and>
   files (deletion_loop [] (loop_start ([] @ path_b # [path_a]) yes scenario_fs)) path_b = None \<and>
   fst (run [path_b, path_a] yes scenario_fs) = Finished \<and>
   exit_status (fst (run [path_b, path_a] yes scenario_fs)) = 0 \<and>
   files (snd (run [path_b, path_a] yes scenario_fs)) path_a = None \<and>
   syscalls (snd (run [path_b, path_a] yes scenario_fs)) =
     [Exists path_b False, Exists path_a True, Remove path_a None]"
proof -
  have h: "files (deletion_loop [] (loop_start ([] @ path_b # [path_a]) yes scenario_fs)) path_b =
      None"
    by (simp add: loop_start_files scenario py_def)
  have a: "scenario_fs path_a = Some Removable" and "path_b \<noteq> path_a"
    by (simp_all add: scenario py_def)
  from missing_path_is_skipped [OF readline_yes strip_yes refl h] this
  show ?thesis
    using h by (simp add: readline_yes strip_yes delete_one_eq outcome_at_def
        loop_start_files loop_start_syscalls a)
qed

text \<open>
  C8. The standard output of every run is the header line, one line per path in list order and
  the prompt (written without a newline); a confirmed run then writes one line per path, in
  list order, each of the form \<open>Deleted: p\<close>, \<open>Skipped (not found): p\<close> or
  \<open>Failed to delete p: reason\<close> (see \<open>report_line\<close>); an aborted run writes the single
  line \<open>Aborted by user.\<close> instead.
\<close>

theorem stdout_layout:
  "stdout (snd (run ps s fs)) =
     text_lines (header # ps) @ prompt @
     (case readline s of
        Inl e \<Rightarrow> []
      | Inr confirm \<Rightarrow>
          if strip confirm = py ''DELETE'' then
            text_lines (map (\<lambda>i. report_line (ps ! i) (visit_outcome fs ps i)) [0..<length ps])
          else text_lines [py ''Aborted by user.''])"
proof (cases "readline s")
  case (Inl e)
  then show ?thesis by (simp add: run_eof loop_start_stdout)
next
  case (Inr c)
  then show ?thesis
    by (cases "strip c = py ''DELETE''")
       (simp_all add: run_abort run_confirmed loop_start_stdout loop_start_files
          deletion_loop_stdout print_def text_lines_def)
qed

text \<open>
  C9. Two confirmed runs in succession, the second on the filesystem the first one left: if
  no removal failed in the first run, every listed path is gone after it, so the second run
  reports every listed path (among them each one that existed before the first run) as
  skipped, and changes nothing.
\<close>

theorem second_run_skips_every_path:
  assumes "readline s1 = Inr confirm1" and "strip confirm1 = py ''DELETE''"
    and "readline s2 = Inr confirm2" and "strip confirm2 = py ''DELETE''"
    and "\<forall>f e. Remove f (Some e) \<notin> set (syscalls (snd (run ps s1 fs)))"
  shows "(\<forall>f \<in> set ps. files (snd (run ps s1 fs)) f = None) \<and>
         (\<forall>i < length ps. visit_outcome (files (snd (run ps s1 fs))) ps i = Skipped) \<and>
         stdout (snd (run ps s2 (files (snd (run ps s1 fs))))) =
           text_lines (header # ps) @ prompt @
           text_lines (map (\<lambda>f. py ''Skipped (not found): '' @ f) ps) \<and>
         files (snd (run ps s2 (files (snd (run ps s1 fs))))) = files (snd (run ps s1 fs))"
proof -
  define fs1 where "fs1 = files (snd (run ps s1 fs))"
  have run1: "snd (run ps s1 fs) = deletion_loop ps (loop_start ps s1 fs)"
    using assms(1,2) by (simp add: run_confirmed)
  have run2: "snd (run ps s2 fs1) = deletion_loop ps (loop_start ps s2 fs1)"
    using assms(3,4) by (simp add: run_confirmed)
  have gone: "fs1 f = None" if "f \<in> set ps" for f
  proof (cases "fs f")
    case None
    with that show ?thesis
      by (simp add: fs1_def run1 deletion_loop_files loop_start_files)
  next
    case (Some e)
    show ?thesis
    proof (cases e)
      case Removable
      with Some that show ?thesis
        by (simp add: fs1_def run1 deletion_loop_files loop_start_files)
    next
      case (Unremovable msg)
      with Some have "files (loop_start ps s1 fs) f = Some (Unremovable msg)"
        by (simp add: loop_start_files)
      with that have "Remove f (Some (OSError msg)) \<in> set (syscalls (snd (run ps s1 fs)))"
        unfolding run1 by (rule failed_removal_is_logged)
      with assms(5) show ?thesis by blast
    qed
  qed
  have skipped: "visit_outcome fs1 ps i = Skipped" if "i < length ps" for i
    using gone [of "ps ! i"] that by (simp add: visit_outcome_def outcome_at_def)
  have "map (\<lambda>i. report_line (ps ! i) (visit_outcome fs1 ps i)) [0..<length ps] =
        map (\<lambda>i. py ''Skipped (not found): '' @ ps ! i) [0..<length ps]"
    by (rule map_cong) (simp_all add: skipped)
  also have "\<dots> = map (\<lambda>f. py ''Skipped (not found): '' @ f) (map (\<lambda>i. ps ! i) [0..<length ps])"
    by (simp add: comp_def)
  also have "\<dots> = map (\<lambda>f. py ''Skipped (not found): '' @ f) ps"
    by (simp only: map_nth)
  finally have lines: "map (\<lambda>i. report_line (ps ! i) (visit_outcome fs1 ps i)) [0..<length ps] =
      map (\<lambda>f. py ''Skipped (not found): '' @ f) ps" .
  have out: "stdout (snd (run ps s2 fs1)) =
      text_lines (header # ps) @ prompt @
      text_lines (map (\<lambda>f. py ''Skipped (not found): '' @ f) ps)"
    by (simp add: run2 deletion_loop_stdout loop_start_files loop_start_stdout lines)
  have same: "files (snd (run ps s2 fs1)) = fs1"
    using gone by (auto simp add: run2 deletion_loop_files loop_start_files fun_eq_iff)
  show ?thesis
    using gone skipped out same unfolding fs1_def by blast
qed

theorem second_run_skips_every_path_witness:
  "readline yes = Inr (py ''DELETE'') \<and> strip (py ''DELETE'') = py ''DELETE'' \<and>
   (\<forall>f e. Remove f (Some e) \<notin> set (syscalls (snd (run [path_a, path_b, path_a] yes scenario_fs)))) \<and>
   scenario_fs path_a = Some Removable \<and>
   files (snd (run [path_a, path_b, path_a] yes scenario_fs)) path_a = None \<and>
   stdout (snd (run [path_a, path_b, path_a] yes
                 (files (snd (run [path_a, path_b, path_a] yes scenario_fs))))) =
     text_lines [header, path_a, path_b, path_a] @ prompt @
     text_lines [py ''Skipped (not found): '' @ path_a, py ''Skipped (not found): '' @ path_b,
                 py ''Skipped (not found): '' @ path_a]"
proof -
  have a: "scenario_fs path_a = Some Removable" and b: "scenario_fs path_b = None"
    and ab: "path_a \<noteq> path_b"
    by (simp_all add: scenario py_def)
  have "syscalls (snd (run [path_a, path_b, path_a] yes scenario_fs)) =
      [Exists path_a True, Remove path_a None, Exists path_b False, Exists path_a False]"
    using a b ab
    by (simp add: run_confirmed [OF readline_yes strip_yes] delete_one_eq outcome_at_def
        loop_start_files loop_start_syscalls)
  then have h: "\<forall>f e. Remove f (Some e) \<notin>
      set (syscalls (snd (run [path_a, path_b, path_a] yes scenario_fs)))"
    by simp
  from second_run_skips_every_path [OF readline_yes strip_yes readline_yes strip_yes h]
  show ?thesis
    using h a by (simp add: readline_yes strip_yes)
qed

text \<open>
  C10. On an exhausted standard input the read at the prompt raises \<open>EOFError\<close>, which
  nothing catches: the run ends with status 1, the output stops after the prompt (no abort
  line), the filesystem is unchanged and no call into \<open>os\<close> was made.
\<close>

theorem eof_at_the_prompt:
  "run ps [] fs =
     (Uncaught EOFError,
      \<lparr>stdout = text_lines (header # ps) @ prompt, stdin = [], files = fs, syscalls = []\<rparr>) \<and>
   exit_status (fst (run ps [] fs)) = 1"
proof -
  have "readline [] = Inl EOFError"
    by (simp add: readline_def)
  then have "run ps [] fs = (Uncaught EOFError, loop_start ps [] fs)"
    by (rule run_eof)
  moreover have "loop_start ps [] fs =
    \<lparr>stdout = text_lines (header # ps) @ prompt, stdin = [], files = fs, syscalls = []\<rparr>"
    by (simp add: loop_start_def input_def readline_def print_files_eq print_def start_def
        text_lines_def)
  ultimately show ?thesis by simp
qed

end
